theory Spec2Isabelle
  imports Complex_Main "HOL-Library.Multiset" "HOL-Library.Sublist" "HOL-Library.Product_Lexorder"
begin

section \<open>Python strings\<close>

text \<open>
  A Python \<open>str\<close> is a sequence of Unicode code points, so it is modelled as a list of
  natural numbers (the code points), not as a list of bytes: \<open>str.strip\<close> and the
  format strings of \<open>Preprocess.py\<close> work on code points, and the page header holds the
  three code points U+30DA, U+30FC, U+30B8.
\<close>

type_synonym pystr = "nat list"

definition ascii :: "string \<Rightarrow> pystr" where
  "ascii s = map of_char s"

text \<open>
  \<open>str.isspace\<close> for one code point: the 29 code points for which CPython's
  \<open>Py_UNICODE_ISSPACE\<close> holds.
\<close>

definition isspace :: "nat \<Rightarrow> bool" where
  "isspace c \<longleftrightarrow>
     (9 \<le> c \<and> c \<le> 13) \<or> (28 \<le> c \<and> c \<le> 32) \<or> c = 133 \<or> c = 160 \<or> c = 5760 \<or>
     (8192 \<le> c \<and> c \<le> 8202) \<or> c = 8232 \<or> c = 8233 \<or> c = 8239 \<or> c = 8287 \<or> c = 12288"

text \<open>\<open>s.strip()\<close>: drop the leading and the trailing run of whitespace.\<close>

definition strip :: "pystr \<Rightarrow> pystr" where
  "strip s = rev (dropWhile isspace (rev (dropWhile isspace s)))"

text \<open>\<open>sep.join(xs)\<close>.\<close>

fun join :: "pystr \<Rightarrow> pystr list \<Rightarrow> pystr" where
  "join sep [] = []"
| "join sep [x] = x"
| "join sep (x # y # ys) = x @ sep @ join sep (y # ys)"

text \<open>\<open>str(n)\<close> for a non-negative integer: its decimal digits.\<close>

fun str_nat :: "nat \<Rightarrow> pystr" where
  "str_nat n = (if n < 10 then [48 + n] else str_nat (n div 10) @ [48 + n mod 10])"

declare str_nat.simps [simp del]

section \<open>Double-precision arithmetic\<close>

text \<open>
  A Python \<open>float\<close> is an IEEE 754 double. A finite double is modelled by the real number
  it denotes (the two zeros are one value: nothing below tells them apart); an operation
  on finite doubles gives a finite double or an infinity. The result of an operation is
  the exact result rounded to the nearest double, ties to the even significand:
  \<open>binade a\<close> is the exponent of the doubles around the magnitude \<open>a\<close> (between \<open>-1022\<close>,
  which also serves the subnormal numbers, and \<open>1023\<close>), neighbouring doubles there are
  \<open>2 powi (binade a - 52)\<close> apart, and a rounded magnitude of \<open>2 powi 1024\<close> or more
  overflows to an infinity. No operation below has a NaN as its result: the operands of the
  addition are finite, and the divisor is always 2.
\<close>

datatype double = Fin real | PInf | NInf

definition binade :: "real \<Rightarrow> int" where
  "binade a = Max (insert (- 1022) {e \<in> {- 1022..1023}. 2 powi e \<le> a})"

definition round_half_even :: "real \<Rightarrow> int" where
  "round_half_even x =
     (let f = \<lfloor>x\<rfloor>; d = x - of_int f
      in if d < 1 / 2 then f else if d > 1 / 2 then f + 1 else if even f then f else f + 1)"

definition round_double :: "real \<Rightarrow> double" where
  "round_double r =
     (let ulp = 2 powi (binade \<bar>r\<bar> - 52);
          v = of_int (round_half_even (r / ulp)) * ulp
      in if v \<ge> 2 powi 1024 then PInf else if v \<le> - (2 powi 1024) then NInf else Fin v)"

text \<open>\<open>x + y\<close> for finite doubles, \<open>a / 2\<close> and \<open>a < b\<close>.\<close>

definition float_add :: "real \<Rightarrow> real \<Rightarrow> double" where
  "float_add x y = round_double (x + y)"

fun float_half :: "double \<Rightarrow> double" where
  "float_half (Fin x) = round_double (x / 2)"
| "float_half PInf = PInf"
| "float_half NInf = NInf"

fun float_less :: "double \<Rightarrow> double \<Rightarrow> bool" where
  "float_less (Fin a) (Fin b) = (a < b)"
| "float_less NInf b = (b \<noteq> NInf)"
| "float_less a PInf = (a \<noteq> PInf)"
| "float_less a b = False"

section \<open>Blocks and pages as PyMuPDF hands them over\<close>

text \<open>
  A block is the 7-tuple \<open>(x0, y0, x1, y1, text, block_no, block_type)\<close> of
  \<open>page.get_text("blocks")\<close>. The coordinates are floats in the source: each is a finite
  double, given by the real number it denotes. Comparing two of them, as the sort does, is
  exact; adding and halving them, as \<open>classify_columns\<close> does, rounds. The source tests
  \<open>b[5] is not None\<close>, so the block number is optional.
\<close>

record block =
  x0 :: real
  y0 :: real
  x1 :: real
  y1 :: real
  block_text :: pystr
  block_no :: "int option"
  block_type :: int

text \<open>
  What \<open>process\<close> reads from one page: \<open>page.rect.width\<close>,
  \<open>page.get_text("blocks")\<close> and \<open>page.get_text()\<close>.
\<close>

record page =
  rect_width :: real
  get_text_blocks :: "block list"
  get_text :: pystr

section \<open>\<open>PDFToMarkdownConverter\<close>: the pure methods\<close>

text \<open>
  \<open>extract_blocks\<close>: the list comprehension
  \<open>[b for b in blocks if b[5] is not None and b[6] == 0 and b[4].strip()]\<close>.
\<close>

definition extract_blocks :: "page \<Rightarrow> block list" where
  "extract_blocks pg =
     (let blocks = get_text_blocks pg
      in filter (\<lambda>b. block_no b \<noteq> None \<and> block_type b = 0 \<and> strip (block_text b) \<noteq> []) blocks)"

text \<open>
  \<open>classify_columns\<close>: the \<open>for\<close> loop over the blocks, appending each block to
  \<open>left_blocks\<close> or to \<open>right_blocks\<close>. \<open>center = (x0 + x1) / 2\<close> and
  \<open>center < page_width / 2\<close> are computed in doubles.
\<close>

fun classify_loop :: "block list \<Rightarrow> real \<Rightarrow> block list \<Rightarrow> block list \<Rightarrow> block list \<times> block list" where
  "classify_loop [] page_width left_blocks right_blocks = (left_blocks, right_blocks)"
| "classify_loop (b # bs) page_width left_blocks right_blocks =
     (let center = float_half (float_add (x0 b) (x1 b))
      in if float_less center (float_half (Fin page_width))
         then classify_loop bs page_width (left_blocks @ [b]) right_blocks
         else classify_loop bs page_width left_blocks (right_blocks @ [b]))"

definition classify_columns :: "block list \<Rightarrow> real \<Rightarrow> block list \<times> block list" where
  "classify_columns blocks page_width = classify_loop blocks page_width [] []"

text \<open>
  \<open>sort_blocks_reading_order\<close>: \<open>sorted(blocks, key=lambda b: (b[1], b[0]))\<close>. Python's
  \<open>sorted\<close> is a stable sort and compares the key tuples lexicographically; \<open>sort_key\<close>
  is the stable insertion sort of the list library, on pairs ordered lexicographically.
\<close>

definition sort_blocks_reading_order :: "block list \<Rightarrow> block list" where
  "sort_blocks_reading_order blocks = sort_key (\<lambda>b. (y0 b, x0 b)) blocks"

text \<open>\<open>join_block_texts\<close>.\<close>

definition join_block_texts :: "block list \<Rightarrow> pystr" where
  "join_block_texts blocks =
     (let texts = map (\<lambda>b. strip (block_text b)) (filter (\<lambda>b. strip (block_text b) \<noteq> []) blocks)
      in join [10] texts)"

section \<open>Paths, files and the environment\<close>

text \<open>
  The three functions of \<open>os.path\<close> that \<open>process\<close> calls, as \<open>posixpath\<close> defines
  them (the separator is code point 47, the extension separator code point 46).
  \<open>rfind\<close> is \<open>str.rfind\<close> for one character: the last index of it, or \<open>-1\<close>.
\<close>

definition rfind :: "nat \<Rightarrow> pystr \<Rightarrow> int" where
  "rfind ch s =
     (if ch \<in> set s then int (length s) - 1 - int (length (takeWhile (\<lambda>x. x \<noteq> ch) (rev s)))
      else - 1)"

definition basename :: "pystr \<Rightarrow> pystr" where
  "basename p = (let i = rfind 47 p + 1 in drop (nat i) p)"

text \<open>
  \<open>os.path.splitext(p)[0]\<close>: the path up to its last dot, when that dot comes after the
  last separator and some character between them is not a dot; the whole path otherwise.
\<close>

definition splitext_root :: "pystr \<Rightarrow> pystr" where
  "splitext_root p =
     (let sepIndex = rfind 47 p; dotIndex = rfind 46 p
      in if dotIndex > sepIndex \<and>
            list_ex (\<lambda>i. p ! i \<noteq> 46) [nat (sepIndex + 1)..<nat dotIndex]
         then take (nat dotIndex) p else p)"

definition os_path_join :: "pystr \<Rightarrow> pystr \<Rightarrow> pystr" where
  "os_path_join a b =
     (if b \<noteq> [] \<and> hd b = 47 then b
      else if a = [] \<or> last a = 47 then a @ b
      else a @ [47] @ b)"

text \<open>
  The exceptions of the source are all caught as \<open>Exception\<close>; they are told apart here by
  the place that raises them.
\<close>

datatype error = OpenFailed | PageReadFailed | WriteFailed

text \<open>A page of an opened document can be read, or reading it raises.\<close>

datatype page_read = Page page | Unreadable

text \<open>
  What \<open>with open(path, "w") as f: f.write(text)\<close> does is decided by the operating
  system: it succeeds; or \<open>open\<close> raises, and nothing is created; or \<open>open\<close> has created
  (or truncated) the file and the write raises after some number of characters.
\<close>

datatype write_result = Written | OpenRefused | Interrupted nat

record env =
  glob_glob :: "pystr \<Rightarrow> pystr list"
  fitz_open :: "pystr \<Rightarrow> page_read list option"
  open_w :: "pystr \<Rightarrow> write_result"

type_synonym files = "pystr \<rightharpoonup> pystr"

section \<open>\<open>PDFToMarkdownConverter\<close>: state, \<open>__init__\<close> and \<open>process\<close>\<close>

record converter =
  pdf_file_path :: pystr
  md_folder_path :: pystr
  doc :: "page_read list"
  md_text :: pystr
  page_number :: nat

definition converter_init :: "env \<Rightarrow> pystr \<Rightarrow> pystr \<Rightarrow> error + converter" where
  "converter_init ev pdf md =
     (case fitz_open ev pdf of
        None \<Rightarrow> Inl OpenFailed
      | Some d \<Rightarrow> Inr \<lparr>pdf_file_path = pdf, md_folder_path = md, doc = d,
                       md_text = [], page_number = 1\<rparr>)"

text \<open>
  The format string of lines 193, 195 and 201: \<open>"## "\<close>, the three code points
  U+30DA U+30FC U+30B8, a space, the number, two newlines, the body, two newlines.
\<close>

definition page_block :: "nat \<Rightarrow> pystr \<Rightarrow> pystr" where
  "page_block n body =
     [35, 35, 32, 12506, 12540, 12472, 32] @ str_nat n @ [10, 10] @ body @ [10, 10]"

text \<open>The body of the page loop of \<open>process\<close>.\<close>

definition process_page :: "page \<Rightarrow> converter \<Rightarrow> converter" where
  "process_page pg c =
     (let width = rect_width pg;
          blocks = extract_blocks pg;
          (left_blocks, right_blocks) = classify_columns blocks width
      in if length left_blocks \<ge> 2 \<and> length right_blocks \<ge> 2 then
           (let left_blocks = sort_blocks_reading_order left_blocks;
                right_blocks = sort_blocks_reading_order right_blocks;
                left_text = join_block_texts left_blocks;
                right_text = join_block_texts right_blocks;
                c = c\<lparr>md_text := md_text c @ page_block (page_number c) left_text\<rparr>;
                c = c\<lparr>page_number := page_number c + 1\<rparr>;
                c = c\<lparr>md_text := md_text c @ page_block (page_number c) right_text\<rparr>;
                c = c\<lparr>page_number := page_number c + 1\<rparr>
            in c)
         else
           (let full_text = strip (get_text pg);
                c = c\<lparr>md_text := md_text c @ page_block (page_number c) full_text\<rparr>;
                c = c\<lparr>page_number := page_number c + 1\<rparr>
            in c))"

text \<open>The page loop: an exception of the decoder leaves the loop and \<open>process\<close>.\<close>

fun process_pages :: "page_read list \<Rightarrow> converter \<Rightarrow> error + converter" where
  "process_pages [] c = Inr c"
| "process_pages (Unreadable # ps) c = Inl PageReadFailed"
| "process_pages (Page pg # ps) c = process_pages ps (process_page pg c)"

definition process :: "env \<Rightarrow> converter \<Rightarrow> files \<Rightarrow> (error + unit) \<times> files" where
  "process ev c fs =
     (case process_pages (doc c) c of
        Inl e \<Rightarrow> (Inl e, fs)
      | Inr c \<Rightarrow>
          (let base_name = splitext_root (basename (pdf_file_path c));
               preprocessed_path = os_path_join (md_folder_path c) (base_name @ ascii ''.md'')
           in case open_w ev preprocessed_path of
                Written \<Rightarrow> (Inr (), fs(preprocessed_path \<mapsto> md_text c))
              | OpenRefused \<Rightarrow> (Inl WriteFailed, fs)
              | Interrupted n \<Rightarrow> (Inl WriteFailed, fs(preprocessed_path \<mapsto> take n (md_text c)))))"

section \<open>\<open>FolderPDFConverter\<close>\<close>

record folder_converter =
  input_folder_path :: pystr
  output_folder_path :: pystr

text \<open>
  The body of the loop of \<open>process_all\<close> (lines 237 and 238): neither call is inside a
  \<open>try\<close>, so an exception of either leaves the loop.
\<close>

definition convert_one :: "env \<Rightarrow> pystr \<Rightarrow> pystr \<Rightarrow> files \<Rightarrow> (error + unit) \<times> files" where
  "convert_one ev pdf out fs =
     (case converter_init ev pdf out of
        Inl e \<Rightarrow> (Inl e, fs)
      | Inr converter \<Rightarrow> process ev converter fs)"

fun process_all_loop :: "env \<Rightarrow> pystr \<Rightarrow> pystr list \<Rightarrow> files \<Rightarrow> (error + unit) \<times> files" where
  "process_all_loop ev out [] fs = (Inr (), fs)"
| "process_all_loop ev out (pdf # pdfs) fs =
     (case convert_one ev pdf out fs of
        (Inl e, fs') \<Rightarrow> (Inl e, fs')
      | (Inr u, fs') \<Rightarrow> process_all_loop ev out pdfs fs')"

definition process_all :: "env \<Rightarrow> folder_converter \<Rightarrow> files \<Rightarrow> (error + unit) \<times> files" where
  "process_all ev fc fs =
     (let pdf_files = glob_glob ev (os_path_join (input_folder_path fc) (ascii ''*.pdf''))
      in process_all_loop ev (output_folder_path fc) pdf_files fs)"

section \<open>Logical pages\<close>

text \<open>
  The specification speaks of the logical pages a physical page emits; the source has no
  such value, only the text appended to \<open>md_text\<close>. These two definitions follow the
  specification's words (section 4.5): a two-column page emits the logical page \<open>N\<close> with
  the joined left column and the logical page \<open>N + 1\<close> with the joined right column, any
  other page emits the logical page \<open>N\<close> with the trimmed text of the whole page; the
  pages of a document are numbered onwards from one physical page to the next.
\<close>

definition logical_pages :: "nat \<Rightarrow> page \<Rightarrow> (nat \<times> pystr) list" where
  "logical_pages n pg =
     (let (left, right) = classify_columns (extract_blocks pg) (rect_width pg)
      in if length left \<ge> 2 \<and> length right \<ge> 2
         then [(n, join_block_texts (sort_blocks_reading_order left)),
               (n + 1, join_block_texts (sort_blocks_reading_order right))]
         else [(n, strip (get_text pg))])"

fun document_pages :: "nat \<Rightarrow> page list \<Rightarrow> (nat \<times> pystr) list" where
  "document_pages n [] = []"
| "document_pages n (pg # pgs) =
     logical_pages n pg @ document_pages (n + length (logical_pages n pg)) pgs"

text \<open>
  The bodies of the logical pages of one physical page, without their numbers: the two
  joined columns of a two-column page, the trimmed whole-page text of any other page.
\<close>

definition page_bodies :: "page \<Rightarrow> pystr list" where
  "page_bodies pg =
     (let (left, right) = classify_columns (extract_blocks pg) (rect_width pg)
      in if length left \<ge> 2 \<and> length right \<ge> 2
         then [join_block_texts (sort_blocks_reading_order left),
               join_block_texts (sort_blocks_reading_order right)]
         else [strip (get_text pg)])"

text \<open>The number that a string of decimal digits denotes, as \<open>int(s)\<close> reads it.\<close>

definition decimal_value :: "pystr \<Rightarrow> nat" where
  "decimal_value s = foldl (\<lambda>a d. 10 * a + (d - 48)) 0 s"

section \<open>Example inputs\<close>

text \<open>A text block with a block number, ten units high.\<close>

definition frag :: "real \<Rightarrow> real \<Rightarrow> real \<Rightarrow> pystr \<Rightarrow> block" where
  "frag a b c t =
     \<lparr>x0 = a, y0 = b, x1 = c, y1 = b + 10, block_text = t, block_no = Some 0, block_type = 0\<rparr>"

text \<open>
  A page 600 wide with three text blocks on each side, not in reading order, an image
  block, a block of whitespace and a block without a number.
\<close>

definition two_column_page :: page where
  "two_column_page =
     \<lparr>rect_width = 600,
      get_text_blocks =
        [frag 5 50 105 (ascii ''c''), frag 60 10 160 (ascii '' b ''), frag 5 10 55 (ascii ''a''),
         (frag 5 70 105 (ascii ''img''))\<lparr>block_type := 1\<rparr>,
         frag 305 50 405 (ascii ''f''), frag 360 10 460 (ascii ''e''), frag 305 10 355 (ascii ''d''),
         frag 5 90 105 [32, 10],
         (frag 5 95 105 (ascii ''n''))\<lparr>block_no := None\<rparr>],
      get_text = ascii ''whole''\<rparr>"

text \<open>A page with one block on the left and none on the right, and a page without text.\<close>

definition single_column_page :: page where
  "single_column_page =
     \<lparr>rect_width = 600, get_text_blocks = [frag 5 10 105 (ascii ''x'')],
      get_text = [32, 120, 10]\<rparr>"

definition empty_page :: page where
  "empty_page = \<lparr>rect_width = 600, get_text_blocks = [], get_text = []\<rparr>"

text \<open>
  A folder with two documents: \<open>in/a.pdf\<close> cannot be opened, \<open>in/b.pdf\<close> has one page.
  Every write succeeds.
\<close>

definition broken_first_env :: env where
  "broken_first_env =
     \<lparr>glob_glob = (\<lambda>pattern. [ascii ''in/a.pdf'', ascii ''in/b.pdf'']),
      fitz_open = (\<lambda>pdf. if pdf = ascii ''in/b.pdf'' then Some [Page single_column_page] else None),
      open_w = (\<lambda>path. Written)\<rparr>"

text \<open>Every document has the three pages above; every write succeeds.\<close>

definition good_env :: env where
  "good_env =
     \<lparr>glob_glob = (\<lambda>pattern. [ascii ''in/a.pdf'']),
      fitz_open = (\<lambda>pdf. Some [Page single_column_page, Page two_column_page, Page empty_page]),
      open_w = (\<lambda>path. Written)\<rparr>"


text \<open>
  The converter that \<open>__init__\<close> builds for \<open>in/a.pdf\<close> and the output folder \<open>out\<close>
  when the document has the three pages above, and when it has one page.
\<close>

definition fresh_converter :: converter where
  "fresh_converter =
     \<lparr>pdf_file_path = ascii ''in/a.pdf'', md_folder_path = ascii ''out'',
      doc = [Page single_column_page, Page two_column_page, Page empty_page],
      md_text = [], page_number = 1\<rparr>"


definition batch_folder :: folder_converter where
  "batch_folder = \<lparr>input_folder_path = ascii ''in'', output_folder_path = ascii ''out''\<rparr>"

section \<open>Properties of the pure methods\<close>

subsection \<open>Rounding\<close>

text \<open>
  The exponent found by \<open>binade\<close>; a value that is a double rounds to itself.
\<close>

lemma binade_set_finite: "finite (insert (- 1022) {e \<in> {- 1022..1023}. (2::real) powi e \<le> a})"
proof -
  have "{e \<in> {- 1022..1023}. (2::real) powi e \<le> a} \<subseteq> {- 1022..1023}" by blast
  then have "finite {e \<in> {- 1022..1023}. (2::real) powi e \<le> a}"
    by (rule finite_subset) simp
  then show ?thesis by simp
qed

lemma binade_cases: "binade a = - 1022 \<or> (- 1022 \<le> binade a \<and> binade a \<le> 1023 \<and> 2 powi binade a \<le> a)"
proof -
  have "binade a \<in> insert (- 1022) {e \<in> {- 1022..1023}. (2::real) powi e \<le> a}"
    unfolding binade_def by (rule Max_in) (simp_all only: binade_set_finite insert_not_empty not_False_eq_True)
  then show ?thesis by auto
qed

lemma binade_eq:
  assumes "- 1022 \<le> e" and "e \<le> 1023" and "2 powi e \<le> a" and "a < 2 powi (e + 1)"
  shows "binade a = e"
  unfolding binade_def
proof (rule Max_eqI)
  show "finite (insert (- 1022) {e \<in> {- 1022..1023}. (2::real) powi e \<le> a})"
    by (rule binade_set_finite)
  show "e \<in> insert (- 1022) {e \<in> {- 1022..1023}. (2::real) powi e \<le> a}"
    using assms by simp
  fix y assume y: "y \<in> insert (- 1022) {e \<in> {- 1022..1023}. (2::real) powi e \<le> a}"
  show "y \<le> e"
  proof (rule ccontr)
    assume "\<not> y \<le> e"
    then have l: "e + 1 \<le> y" by simp
    with assms(1) have "y \<noteq> - 1022" by simp
    with y have "(2::real) powi y \<le> a" by simp
    moreover from l have "(2::real) powi (e + 1) \<le> 2 powi y"
      by (intro power_int_increasing) simp_all
    ultimately show False using assms(4) by simp
  qed
qed

lemma binade_low:
  assumes "a < 2 powi (- 1022)"
  shows "binade a = - 1022"
proof -
  from binade_cases[of a] show ?thesis
  proof
    assume "- 1022 \<le> binade a \<and> binade a \<le> 1023 \<and> 2 powi binade a \<le> a"
    then have b: "- 1022 \<le> binade a" "(2::real) powi binade a \<le> a" by simp_all
    from b(1) have "(2::real) powi (- 1022) \<le> 2 powi binade a"
      by (intro power_int_increasing) simp_all
    with b(2) assms show ?thesis by simp
  qed
qed

lemma round_half_even_of_int: "round_half_even (of_int k) = k"
  by (simp add: round_half_even_def)

lemma round_double_dyadic:
  assumes m: "\<bar>m\<bar> < 2 ^ 53" and j: "- 1074 \<le> j" "j \<le> 971"
  shows "round_double (of_int m * 2 powi j) = Fin (of_int m * 2 powi j)"
proof -
  define r :: real where "r = of_int m * 2 powi j"
  define e where "e = binade \<bar>r\<bar>"
  have ar: "\<bar>r\<bar> = of_int \<bar>m\<bar> * 2 powi j"
    by (simp add: r_def abs_mult power_int_abs)
  have "of_int \<bar>m\<bar> < (2::real) ^ 53"
    using m by (metis of_int_less_iff of_int_numeral of_int_power)
  then have "of_int \<bar>m\<bar> < (2::real) powi 53" by simp
  then have "\<bar>r\<bar> < 2 powi 53 * 2 powi j"
    unfolding ar by (intro mult_strict_right_mono) simp_all
  then have lt: "\<bar>r\<bar> < 2 powi (53 + j)"
    by (simp add: power_int_add)
  have ej: "e \<le> j + 52"
  proof -
    from binade_cases[of "\<bar>r\<bar>"] show ?thesis
    proof
      assume "binade \<bar>r\<bar> = - 1022"
      with j show ?thesis by (simp add: e_def)
    next
      assume "- 1022 \<le> binade \<bar>r\<bar> \<and> binade \<bar>r\<bar> \<le> 1023 \<and> 2 powi binade \<bar>r\<bar> \<le> \<bar>r\<bar>"
      then have "(2::real) powi e < 2 powi (53 + j)" using lt by (simp add: e_def)
      then have "e < 53 + j"
        by (metis not_le power_int_increasing one_le_numeral)
      then show ?thesis by simp
    qed
  qed
  define n where "n = nat (j + 52 - e)"
  have "(2::real) powi j = 2 powi (int n) * 2 powi (e - 52)"
    using ej by (simp add: n_def flip: power_int_add)
  then have rr: "r = of_int (m * 2 ^ n) * 2 powi (e - 52)"
    by (simp add: r_def)
  then have q: "r / 2 powi (e - 52) = of_int (m * 2 ^ n)"
    by simp
  have v: "of_int (round_half_even (r / 2 powi (e - 52))) * 2 powi (e - 52) = r"
    unfolding q round_half_even_of_int using rr by simp
  have "(2::real) powi (53 + j) \<le> 2 powi 1024"
    using j by (intro power_int_increasing) simp_all
  with lt have "\<bar>r\<bar> < 2 powi 1024" by simp
  then have b: "\<not> r \<ge> 2 powi 1024" "\<not> r \<le> - (2 powi 1024)" by (simp_all add: abs_less_iff) 
  show ?thesis
    unfolding r_def[symmetric] round_double_def e_def[symmetric] Let_def v using b by simp
qed

lemma round_double_numeral:
  "(numeral k :: int) < 2 ^ 53 \<Longrightarrow> round_double (numeral k) = Fin (numeral k)"
  using round_double_dyadic[of "numeral k" 0] by simp

lemma round_double_0: "round_double 0 = Fin 0"
  using round_double_dyadic[of 0 0] by simp

lemma round_double_finite:
  assumes "binade \<bar>r\<bar> = e"
    and "round_half_even (r / 2 powi (e - 52)) = k"
    and "\<bar>of_int k * 2 powi (e - 52)\<bar> < (2::real) powi 1024"
  shows "round_double r = Fin (of_int k * 2 powi (e - 52))"
proof -
  from assms(3) have "\<not> of_int k * 2 powi (e - 52) \<ge> (2::real) powi 1024"
    "\<not> of_int k * 2 powi (e - 52) \<le> - ((2::real) powi 1024)"
    by (simp_all add: abs_less_iff)
  then show ?thesis
    unfolding round_double_def assms(1) Let_def assms(2) by simp
qed

lemma float_add_tenth_fifth:
  "float_add (3602879701896397 / 36028797018963968) (3602879701896397 / 18014398509481984)
     = Fin (1351079888211149 / 4503599627370496)"
proof -
  have s: "(3602879701896397 / 36028797018963968 + 3602879701896397 / 18014398509481984 :: real)
      = 10808639105689191 / 36028797018963968"
    by simp
  have b: "binade \<bar>10808639105689191 / 36028797018963968\<bar> = - 2"
    by (rule binade_eq) simp_all
  have k: "round_half_even (10808639105689191 / 36028797018963968 / 2 powi (- 2 - 52))
      = 5404319552844596"
    by (simp add: round_half_even_def Let_def)
  have "round_double (10808639105689191 / 36028797018963968)
      = Fin (of_int 5404319552844596 * 2 powi (- 2 - 52))"
    using b k by (rule round_double_finite) simp
  then show ?thesis
    unfolding float_add_def s by simp
qed

lemma float_add_border:
  "float_add (- (1 / 1125899906842624)) 600 = Fin 600"
proof -
  have s: "(- (1 / 1125899906842624) + 600 :: real) = 675539944105574399 / 1125899906842624"
    by simp
  have b: "binade \<bar>675539944105574399 / 1125899906842624\<bar> = 9"
    by (rule binade_eq) simp_all
  have k: "round_half_even (675539944105574399 / 1125899906842624 / 2 powi (9 - 52))
      = 5277655813324800"
    by (simp add: round_half_even_def Let_def)
  have "round_double (675539944105574399 / 1125899906842624)
      = Fin (of_int 5277655813324800 * 2 powi (9 - 52))"
    using b k by (rule round_double_finite) simp
  then show ?thesis
    unfolding float_add_def s by simp
qed

subsection \<open>The four methods\<close>

lemma classify_loop_filter:
  "classify_loop bs w l r =
     (l @ filter (\<lambda>b. float_less (float_half (float_add (x0 b) (x1 b))) (float_half (Fin w))) bs,
      r @ filter (\<lambda>b. \<not> float_less (float_half (float_add (x0 b) (x1 b))) (float_half (Fin w))) bs)"
  by (induction bs arbitrary: l r) (simp_all add: Let_def)

lemma subseq_filter_self: "subseq (filter P xs) xs"
  by (induction xs) auto

lemma mset_filter_split: "mset (filter P xs) + mset (filter (\<lambda>x. \<not> P x) xs) = mset xs"
  by (induction xs) auto

text \<open>
  The block from \<open>x0 = 0.1\<close> to \<open>x1 = 0.2\<close> on a page of width
  \<open>0.30000000000000004\<close> (the three doubles, written as fractions): the exact midpoint is
  left of the exact middle of the page, but the sum rounds up to the page width, and
  \<open>classify_columns\<close> puts the block in the right group. The same happens to a block from
  \<open>-2^-50\<close> to \<open>600\<close> on a page 600 wide.
\<close>

theorem midpoint_rule_counterexample:
  "classify_columns
     [frag (3602879701896397 / 36028797018963968) 10 (3602879701896397 / 18014398509481984) (ascii ''a'')]
     (1351079888211149 / 4503599627370496)
     = ([], [frag (3602879701896397 / 36028797018963968) 10 (3602879701896397 / 18014398509481984) (ascii ''a'')])
   \<and> (3602879701896397 / 36028797018963968 + 3602879701896397 / 18014398509481984) / 2
       < (1351079888211149 / 4503599627370496 :: real) / 2
   \<and> classify_columns [frag (- (1 / 1125899906842624)) 10 600 (ascii ''a'')] 600
     = ([], [frag (- (1 / 1125899906842624)) 10 600 (ascii ''a'')])
   \<and> (- (1 / 1125899906842624) + 600) / 2 < (600 :: real) / 2"
proof -
  have i: "\<not> float_less a a" for a
    by (cases a) simp_all
  show ?thesis
    by (simp add: classify_columns_def frag_def float_add_tenth_fifth float_add_border i)
qed

text \<open>
  Claim C4, as the code has it. \<open>classify_columns\<close> puts a block in the left group exactly
  when \<open>(x0 + x1) / 2 < page_width / 2\<close> holds as Python evaluates it, in double-precision
  arithmetic (the sum rounded to the nearest double, then halved), and in the right group
  otherwise, so a block whose computed centre equals the computed middle of the page goes
  right. The two groups together hold every block of the input exactly as often as the
  input does, no block is in both groups, and each group keeps the order of the input.
\<close>

theorem classify_columns_partition:
  assumes "classify_columns blocks page_width = (left_blocks, right_blocks)"
  shows "left_blocks =
           filter (\<lambda>b. float_less (float_half (float_add (x0 b) (x1 b))) (float_half (Fin page_width)))
             blocks
       \<and> right_blocks =
           filter (\<lambda>b. \<not> float_less (float_half (float_add (x0 b) (x1 b))) (float_half (Fin page_width)))
             blocks
       \<and> mset left_blocks + mset right_blocks = mset blocks
       \<and> set left_blocks \<inter> set right_blocks = {}
       \<and> subseq left_blocks blocks \<and> subseq right_blocks blocks"
proof -
  from assms have l: "left_blocks =
      filter (\<lambda>b. float_less (float_half (float_add (x0 b) (x1 b))) (float_half (Fin page_width)))
        blocks"
    and r: "right_blocks =
      filter (\<lambda>b. \<not> float_less (float_half (float_add (x0 b) (x1 b))) (float_half (Fin page_width)))
        blocks"
    by (simp_all add: classify_columns_def classify_loop_filter)
  have d: "set left_blocks \<inter> set right_blocks = {}" unfolding l r by auto
  show ?thesis using l r d mset_filter_split[of _ blocks] subseq_filter_self[of _ blocks]
    by simp
qed

lemma strip_Nil: "strip [] = []"
  by (simp add: strip_def)

lemma strip_ends:
  assumes "strip s \<noteq> []"
  shows "\<not> isspace (hd (strip s)) \<and> \<not> isspace (last (strip s))"
proof -
  define t where "t = dropWhile isspace s"
  define u where "u = dropWhile isspace (rev t)"
  have su: "strip s = rev u" by (simp add: strip_def t_def u_def)
  with assms have un: "u \<noteq> []" by simp
  then have hu: "\<not> isspace (hd u)" unfolding u_def by (rule hd_dropWhile)
  from un have tn: "t \<noteq> []" unfolding u_def by auto
  then have ht: "\<not> isspace (hd t)" unfolding t_def by (rule hd_dropWhile)
  obtain v where v: "rev t = v @ u"
    unfolding u_def by (metis takeWhile_dropWhile_id)
  from v un have "last u = last (rev t)" by simp
  also have "\<dots> = hd t" using tn by (simp add: last_rev)
  finally have lu: "last u = hd t" .
  show ?thesis using su un hu ht lu by (simp add: hd_rev last_rev)
qed

lemma strip_id:
  assumes "s \<noteq> []" "\<not> isspace (hd s)" "\<not> isspace (last s)"
  shows "strip s = s"
proof -
  from assms have a: "dropWhile isspace s = s" by (cases s) auto
  from assms have "rev s \<noteq> []" "\<not> isspace (hd (rev s))" by (simp_all add: hd_rev)
  then have b: "dropWhile isspace (rev s) = rev s" by (cases "rev s") auto
  show ?thesis by (simp add: strip_def a b)
qed

lemma join_pieces:
  assumes "ps \<noteq> []" "\<forall>p \<in> set ps. p \<noteq> []"
  shows "join sep ps \<noteq> [] \<and> hd (join sep ps) = hd (hd ps) \<and> last (join sep ps) = last (last ps)"
  using assms
proof (induction sep ps rule: join.induct)
  case (3 sep x y ys)
  then show ?case by simp
qed simp_all

lemma filter_map_strip:
  "map (\<lambda>b. strip (block_text b)) (filter (\<lambda>b. strip (block_text b) \<noteq> []) blocks)
     = filter (\<lambda>t. t \<noteq> []) (map (\<lambda>b. strip (block_text b)) blocks)"
  by (induction blocks) simp_all

text \<open>
  Claim C10. \<open>join_block_texts\<close> trims the text of every block, leaves out the blocks whose
  trimmed text is empty and joins the others with one newline between two of them. No
  joined piece starts or ends with whitespace, the blocks with an empty trimmed text
  contribute nothing, and the joined text itself neither starts nor ends with whitespace.
\<close>

theorem join_block_texts_normalized:
  "join_block_texts blocks =
     join [10] (filter (\<lambda>t. t \<noteq> []) (map (\<lambda>b. strip (block_text b)) blocks))
   \<and> (\<forall>t \<in> set (filter (\<lambda>t. t \<noteq> []) (map (\<lambda>b. strip (block_text b)) blocks)).
         \<not> isspace (hd t) \<and> \<not> isspace (last t))
   \<and> join_block_texts (filter (\<lambda>b. strip (block_text b) \<noteq> []) blocks) = join_block_texts blocks
   \<and> strip (join_block_texts blocks) = join_block_texts blocks"
proof -
  define texts where "texts = filter (\<lambda>t. t \<noteq> []) (map (\<lambda>b. strip (block_text b)) blocks)"
  have j: "join_block_texts blocks = join [10] texts"
    by (simp add: join_block_texts_def texts_def filter_map_strip)
  have e: "\<forall>t \<in> set texts. t \<noteq> [] \<and> \<not> isspace (hd t) \<and> \<not> isspace (last t)"
  proof
    fix t assume "t \<in> set texts"
    then have "t \<noteq> []" "t \<in> (\<lambda>b. strip (block_text b)) ` set blocks"
      unfolding texts_def by simp_all
    then obtain b :: block where "t = strip (block_text b)" "t \<noteq> []"
      by blast
    then show "t \<noteq> [] \<and> \<not> isspace (hd t) \<and> \<not> isspace (last t)"
      using strip_ends[of "block_text b"] by simp
  qed
  have f: "join_block_texts (filter (\<lambda>b. strip (block_text b) \<noteq> []) blocks) = join_block_texts blocks"
    by (simp add: join_block_texts_def)
  have s: "strip (join [10] texts) = join [10] texts"
  proof (cases "texts = []")
    case True
    then show ?thesis by (simp add: strip_Nil)
  next
    case False
    with e have p: "join [10] texts \<noteq> []" "hd (join [10] texts) = hd (hd texts)"
      "last (join [10] texts) = last (last texts)"
      using join_pieces[of texts "[10]"] by simp_all
    from False e have "\<not> isspace (hd (hd texts))" "\<not> isspace (last (last texts))"
      by simp_all
    with p show ?thesis by (simp add: strip_id)
  qed
  from s j have s': "strip (join_block_texts blocks) = join_block_texts blocks" by simp
  from e have e': "\<forall>t \<in> set texts. \<not> isspace (hd t) \<and> \<not> isspace (last t)" by blast
  show ?thesis using j e' f s' unfolding texts_def by (intro conjI)
qed

text \<open>
  Claim C6. \<open>sort_blocks_reading_order\<close> returns a permutation of its input in which the
  pairs \<open>(y0, x0)\<close> never decrease (first by \<open>y0\<close>, then by \<open>x0\<close>), and the sort is
  stable: the blocks with one and the same pair \<open>(y0, x0)\<close> stand in the order of the
  input.
\<close>

theorem sort_blocks_reading_order_stable:
  "mset (sort_blocks_reading_order blocks) = mset blocks
   \<and> length (sort_blocks_reading_order blocks) = length blocks
   \<and> sorted_wrt (\<lambda>a b. y0 a < y0 b \<or> (y0 a = y0 b \<and> x0 a \<le> x0 b))
        (sort_blocks_reading_order blocks)
   \<and> (\<forall>k. filter (\<lambda>b. (y0 b, x0 b) = k) (sort_blocks_reading_order blocks)
          = filter (\<lambda>b. (y0 b, x0 b) = k) blocks)"
proof -
  let ?key = "\<lambda>b. (y0 b, x0 b)"
  have "sorted (map ?key (sort_key ?key blocks))" by (rule sorted_sort_key)
  then have "sorted_wrt (\<lambda>a b. ?key a \<le> ?key b) (sort_key ?key blocks)"
    by (simp add: sorted_wrt_map)
  then have o: "sorted_wrt (\<lambda>a b. y0 a < y0 b \<or> (y0 a = y0 b \<and> x0 a \<le> x0 b)) (sort_key ?key blocks)"
    by (rule sorted_wrt_mono_rel[rotated]) (auto simp: less_eq_prod_def)
  have st: "\<forall>k. filter (\<lambda>b. ?key b = k) (sort_key ?key blocks) = filter (\<lambda>b. ?key b = k) blocks"
    by (simp add: sort_key_stable)
  show ?thesis using o st by (simp add: sort_blocks_reading_order_def)
qed

text \<open>
  Claim C9. \<open>extract_blocks\<close> returns, in the order of the page, exactly the blocks whose
  type is 0 (text), whose block number is present and whose trimmed text is not empty;
  so every block that \<open>classify_columns\<close> receives from it, and every block of the two
  groups, is a text block with a non-empty trimmed text.
\<close>

theorem extract_blocks_filter:
  "extract_blocks pg =
     filter (\<lambda>b. block_type b = 0 \<and> block_no b \<noteq> None \<and> strip (block_text b) \<noteq> [])
       (get_text_blocks pg)
   \<and> (\<forall>b \<in> set (extract_blocks pg). block_type b = 0 \<and> strip (block_text b) \<noteq> [])
   \<and> (classify_columns (extract_blocks pg) page_width = (left_blocks, right_blocks) \<longrightarrow>
        (\<forall>b \<in> set left_blocks \<union> set right_blocks. block_type b = 0 \<and> strip (block_text b) \<noteq> []))"
proof -
  have f: "extract_blocks pg =
     filter (\<lambda>b. block_type b = 0 \<and> block_no b \<noteq> None \<and> strip (block_text b) \<noteq> [])
       (get_text_blocks pg)"
    unfolding extract_blocks_def Let_def by (rule filter_cong) auto
  have m: "\<forall>b \<in> set (extract_blocks pg). block_type b = 0 \<and> strip (block_text b) \<noteq> []"
    unfolding f by simp
  have c: "classify_columns (extract_blocks pg) page_width = (left_blocks, right_blocks) \<Longrightarrow>
        set left_blocks \<union> set right_blocks \<subseteq> set (extract_blocks pg)"
    by (auto simp: classify_columns_def classify_loop_filter)
  show ?thesis using m c by (intro conjI impI f) auto
qed

subsection \<open>The example page, evaluated\<close>

lemma two_column_page_extracted:
  "extract_blocks two_column_page =
     [frag 5 50 105 (ascii ''c''), frag 60 10 160 (ascii '' b ''), frag 5 10 55 (ascii ''a''),
      frag 305 50 405 (ascii ''f''), frag 360 10 460 (ascii ''e''), frag 305 10 355 (ascii ''d'')]"
  by (simp add: extract_blocks_def two_column_page_def frag_def ascii_def strip_def isspace_def)

lemma two_column_page_classified:
  "classify_columns (extract_blocks two_column_page) 600 =
     ([frag 5 50 105 (ascii ''c''), frag 60 10 160 (ascii '' b ''), frag 5 10 55 (ascii ''a'')],
      [frag 305 50 405 (ascii ''f''), frag 360 10 460 (ascii ''e''), frag 305 10 355 (ascii ''d'')])"
  unfolding two_column_page_extracted
  by (simp add: classify_columns_def frag_def float_add_def round_double_numeral)

lemma left_column_sorted:
  "sort_blocks_reading_order
     [frag 5 50 105 (ascii ''c''), frag 60 10 160 (ascii '' b ''), frag 5 10 55 (ascii ''a'')]
   = [frag 5 10 55 (ascii ''a''), frag 60 10 160 (ascii '' b ''), frag 5 50 105 (ascii ''c'')]"
  by (simp add: sort_blocks_reading_order_def frag_def)

lemma right_column_sorted:
  "sort_blocks_reading_order
     [frag 305 50 405 (ascii ''f''), frag 360 10 460 (ascii ''e''), frag 305 10 355 (ascii ''d'')]
   = [frag 305 10 355 (ascii ''d''), frag 360 10 460 (ascii ''e''), frag 305 50 405 (ascii ''f'')]"
  by (simp add: sort_blocks_reading_order_def frag_def)

lemma left_column_joined:
  "join_block_texts
     [frag 5 10 55 (ascii ''a''), frag 60 10 160 (ascii '' b ''), frag 5 50 105 (ascii ''c'')]
   = [97, 10, 98, 10, 99]"
  by (simp add: join_block_texts_def frag_def ascii_def strip_def isspace_def)

lemma right_column_joined:
  "join_block_texts
     [frag 305 10 355 (ascii ''d''), frag 360 10 460 (ascii ''e''), frag 305 50 405 (ascii ''f'')]
   = [100, 10, 101, 10, 102]"
  by (simp add: join_block_texts_def frag_def ascii_def strip_def isspace_def)

subsection \<open>The claims at concrete inputs\<close>

theorem classify_columns_partition_witness:
  "classify_columns [frag 5 10 55 (ascii ''a''), frag 250 10 350 (ascii ''b''), frag 305 10 355 (ascii ''d'')] 600
     = ([frag 5 10 55 (ascii ''a'')], [frag 250 10 350 (ascii ''b''), frag 305 10 355 (ascii ''d'')])
   \<and> mset [frag 5 10 55 (ascii ''a'')] + mset [frag 250 10 350 (ascii ''b''), frag 305 10 355 (ascii ''d'')]
     = mset [frag 5 10 55 (ascii ''a''), frag 250 10 350 (ascii ''b''), frag 305 10 355 (ascii ''d'')]
   \<and> subseq [frag 250 10 350 (ascii ''b''), frag 305 10 355 (ascii ''d'')]
        [frag 5 10 55 (ascii ''a''), frag 250 10 350 (ascii ''b''), frag 305 10 355 (ascii ''d'')]"
proof -
  have h: "classify_columns [frag 5 10 55 (ascii ''a''), frag 250 10 350 (ascii ''b''), frag 305 10 355 (ascii ''d'')] 600
     = ([frag 5 10 55 (ascii ''a'')], [frag 250 10 350 (ascii ''b''), frag 305 10 355 (ascii ''d'')])"
    by (simp add: classify_columns_def frag_def float_add_def round_double_numeral)
  from classify_columns_partition[OF h] h show ?thesis by blast
qed

theorem sort_blocks_reading_order_stable_witness:
  "sort_blocks_reading_order
     [frag 5 10 55 (ascii ''p''), frag 5 10 55 (ascii ''q''), frag 5 5 55 (ascii ''r'')]
     = [frag 5 5 55 (ascii ''r''), frag 5 10 55 (ascii ''p''), frag 5 10 55 (ascii ''q'')]
   \<and> filter (\<lambda>b. (y0 b, x0 b) = (10, 5))
        (sort_blocks_reading_order
          [frag 5 10 55 (ascii ''p''), frag 5 10 55 (ascii ''q''), frag 5 5 55 (ascii ''r'')])
     = [frag 5 10 55 (ascii ''p''), frag 5 10 55 (ascii ''q'')]"
proof -
  have a: "sort_blocks_reading_order
     [frag 5 10 55 (ascii ''p''), frag 5 10 55 (ascii ''q''), frag 5 5 55 (ascii ''r'')]
     = [frag 5 5 55 (ascii ''r''), frag 5 10 55 (ascii ''p''), frag 5 10 55 (ascii ''q'')]"
    by (simp add: sort_blocks_reading_order_def frag_def)
  have b: "filter (\<lambda>b. (y0 b, x0 b) = (10, 5))
      [frag 5 10 55 (ascii ''p''), frag 5 10 55 (ascii ''q''), frag 5 5 55 (ascii ''r'')]
     = [frag 5 10 55 (ascii ''p''), frag 5 10 55 (ascii ''q'')]"
    by (simp add: frag_def)
  from sort_blocks_reading_order_stable
    [of "[frag 5 10 55 (ascii ''p''), frag 5 10 55 (ascii ''q''), frag 5 5 55 (ascii ''r'')]"]
  have "filter (\<lambda>b. (y0 b, x0 b) = (10, 5))
        (sort_blocks_reading_order
          [frag 5 10 55 (ascii ''p''), frag 5 10 55 (ascii ''q''), frag 5 5 55 (ascii ''r'')])
     = filter (\<lambda>b. (y0 b, x0 b) = (10, 5))
      [frag 5 10 55 (ascii ''p''), frag 5 10 55 (ascii ''q''), frag 5 5 55 (ascii ''r'')]"
    by blast
  with a b show ?thesis by simp
qed

theorem extract_blocks_filter_witness:
  "extract_blocks two_column_page =
     [frag 5 50 105 (ascii ''c''), frag 60 10 160 (ascii '' b ''), frag 5 10 55 (ascii ''a''),
      frag 305 50 405 (ascii ''f''), frag 360 10 460 (ascii ''e''), frag 305 10 355 (ascii ''d'')]
   \<and> classify_columns (extract_blocks two_column_page) 600 =
     ([frag 5 50 105 (ascii ''c''), frag 60 10 160 (ascii '' b ''), frag 5 10 55 (ascii ''a'')],
      [frag 305 50 405 (ascii ''f''), frag 360 10 460 (ascii ''e''), frag 305 10 355 (ascii ''d'')])
   \<and> block_type (frag 60 10 160 (ascii '' b '')) = 0
   \<and> strip (block_text (frag 60 10 160 (ascii '' b ''))) \<noteq> []"
proof -
  note h = two_column_page_classified
  from extract_blocks_filter[of two_column_page 600] h
  have "\<forall>b \<in> set [frag 5 50 105 (ascii ''c''), frag 60 10 160 (ascii '' b ''), frag 5 10 55 (ascii ''a'')]
          \<union> set [frag 305 50 405 (ascii ''f''), frag 360 10 460 (ascii ''e''), frag 305 10 355 (ascii ''d'')].
         block_type b = 0 \<and> strip (block_text b) \<noteq> []"
    by blast
  then have "block_type (frag 60 10 160 (ascii '' b '')) = 0
      \<and> strip (block_text (frag 60 10 160 (ascii '' b ''))) \<noteq> []"
    by simp
  with h two_column_page_extracted show ?thesis by blast
qed

theorem join_block_texts_normalized_witness:
  "join_block_texts [frag 5 10 55 (ascii ''a''), frag 5 20 55 [32, 10], frag 60 30 160 (ascii '' b '')]
     = [97, 10, 98]
   \<and> strip [97, 10, 98] = [97, 10, 98]
   \<and> join_block_texts [frag 5 10 55 (ascii ''a''), frag 60 30 160 (ascii '' b '')] = [97, 10, 98]"
proof -
  let ?bs = "[frag 5 10 55 (ascii ''a''), frag 5 20 55 [32, 10], frag 60 30 160 (ascii '' b '')]"
  have a: "join_block_texts ?bs = [97, 10, 98]"
    by (simp add: join_block_texts_def frag_def ascii_def strip_def isspace_def)
  have f: "filter (\<lambda>b. strip (block_text b) \<noteq> []) ?bs
            = [frag 5 10 55 (ascii ''a''), frag 60 30 160 (ascii '' b '')]"
    by (simp add: frag_def ascii_def strip_def isspace_def)
  from join_block_texts_normalized[of ?bs]
  have c: "join_block_texts (filter (\<lambda>b. strip (block_text b) \<noteq> []) ?bs) = join_block_texts ?bs"
    and d: "strip (join_block_texts ?bs) = join_block_texts ?bs"
    by blast+
  from c d show ?thesis unfolding f a by (intro conjI refl)
qed

section \<open>The page loop and the batch loop\<close>

lemma process_page_two:
  assumes "classify_columns (extract_blocks pg) (rect_width pg) = (l, r)"
    and "2 \<le> length l" and "2 \<le> length r"
  shows "process_page pg c =
     c\<lparr>md_text := md_text c
          @ page_block (page_number c) (join_block_texts (sort_blocks_reading_order l))
          @ page_block (page_number c + 1) (join_block_texts (sort_blocks_reading_order r)),
       page_number := page_number c + 2\<rparr>"
  using assms by (simp add: process_page_def Let_def)

lemma process_page_single:
  assumes "classify_columns (extract_blocks pg) (rect_width pg) = (l, r)"
    and "length l < 2 \<or> length r < 2"
  shows "process_page pg c =
     c\<lparr>md_text := md_text c @ page_block (page_number c) (strip (get_text pg)),
       page_number := page_number c + 1\<rparr>"
  using assms by (auto simp add: process_page_def Let_def)

lemma process_page_logical:
  "process_page pg c =
     c\<lparr>md_text := md_text c
          @ concat (map (\<lambda>(n, body). page_block n body) (logical_pages (page_number c) pg)),
       page_number := page_number c + length (logical_pages (page_number c) pg)\<rparr>"
proof -
  obtain l r where lr: "classify_columns (extract_blocks pg) (rect_width pg) = (l, r)"
    by (cases "classify_columns (extract_blocks pg) (rect_width pg)")
  show ?thesis
  proof (cases "2 \<le> length l \<and> 2 \<le> length r")
    case True
    then show ?thesis using lr process_page_two[OF lr, of c]
      by (simp add: logical_pages_def)
  next
    case False
    then have "length l < 2 \<or> length r < 2" by auto
    then show ?thesis using lr False process_page_single[OF lr, of c]
      by (auto simp add: logical_pages_def)
  qed
qed


lemma process_pages_logical:
  "process_pages (map Page pgs) c =
     Inr (c\<lparr>md_text := md_text c
          @ concat (map (\<lambda>(n, body). page_block n body) (document_pages (page_number c) pgs)),
       page_number := page_number c + length (document_pages (page_number c) pgs)\<rparr>)"
proof (induction pgs arbitrary: c)
  case Nil
  show ?case by simp
next
  case (Cons pg pgs)
  show ?case
    by (simp add: Cons.IH process_page_logical add.assoc)
qed


lemma logical_pages_zip:
  "logical_pages n pg = zip [n..<n + length (page_bodies pg)] (page_bodies pg)"
proof -
  have a: "[n..<n + 1] = [n]" by simp
  have "[n..<n + 2] = n # [Suc n..<Suc (Suc n)]" by (simp add: upt_conv_Cons)
  then have b: "[n..<n + 2] = [n, n + 1]" by simp
  show ?thesis
    using a b by (auto simp add: logical_pages_def page_bodies_def split: prod.splits)
qed

lemma document_pages_zip:
  "document_pages n pgs =
     zip [n..<n + length (concat (map page_bodies pgs))] (concat (map page_bodies pgs))"
proof (induction pgs arbitrary: n)
  case Nil
  show ?case by simp
next
  case (Cons pg pgs)
  define a where "a = length (page_bodies pg)"
  define b where "b = length (concat (map page_bodies pgs))"
  have l: "length (logical_pages n pg) = a"
    by (simp add: logical_pages_zip a_def)
  have u: "[n..<n + a + b] = [n..<n + a] @ [n + a..<n + a + b]"
    using upt_add_eq_append[of n "n + a" b] by simp
  have "document_pages n (pg # pgs)
      = zip [n..<n + a] (page_bodies pg)
        @ zip [n + a..<n + a + b] (concat (map page_bodies pgs))"
    using Cons.IH[of "n + a"] by (simp add: l logical_pages_zip a_def b_def)
  also have "\<dots> = zip ([n..<n + a] @ [n + a..<n + a + b])
                       (page_bodies pg @ concat (map page_bodies pgs))"
    by (simp add: a_def)
  finally show ?case
    unfolding u[symmetric] by (simp add: a_def b_def add.assoc)
qed

lemma document_pages_length:
  "length (document_pages n pgs) = length (concat (map page_bodies pgs))"
  unfolding document_pages_zip[of n pgs] by simp

lemma page_block_unfolded:
  "(\<lambda>(n, body). page_block n body) =
     (\<lambda>(n, body). [35, 35, 32, 12506, 12540, 12472, 32] @ str_nat n @ [10, 10] @ body @ [10, 10])"
  by (simp add: page_block_def fun_eq_iff)

lemma process_all_loop_append:
  "process_all_loop ev out (xs @ ys) fs =
     (case process_all_loop ev out xs fs of
        (Inl e, fs') \<Rightarrow> (Inl e, fs')
      | (Inr u, fs') \<Rightarrow> process_all_loop ev out ys fs')"
  by (induction xs arbitrary: fs) (auto split: prod.splits sum.splits)

lemma process_all_loop_fails:
  assumes "process_all_loop ev out done fs = (Inr (), fs1)"
    and "convert_one ev pdf out fs1 = (Inl e, fs2)"
  shows "process_all_loop ev out (done @ pdf # rest) fs = (Inl e, fs2)"
  using assms by (simp add: process_all_loop_append)

subsection \<open>The example documents, evaluated\<close>

lemma str_nat_digits:
  "str_nat 1 = [49]" "str_nat 2 = [50]" "str_nat 3 = [51]" "str_nat 4 = [52]"
  "str_nat (Suc 0) = [49]" "str_nat (Suc (Suc 0)) = [50]"
  "str_nat (Suc (Suc (Suc 0))) = [51]" "str_nat (Suc (Suc (Suc (Suc 0)))) = [52]"
  by (simp_all add: str_nat.simps)

lemma single_column_page_classified:
  "classify_columns (extract_blocks single_column_page) (rect_width single_column_page)
     = ([frag 5 10 105 (ascii ''x'')], [])"
  by (simp add: classify_columns_def extract_blocks_def single_column_page_def frag_def
      ascii_def strip_def isspace_def float_add_def round_double_numeral)

lemma two_column_page_width: "rect_width two_column_page = 600"
  by (simp add: two_column_page_def)

lemma logical_pages_single_column_page: "logical_pages n single_column_page = [(n, [120])]"
proof -
  have "strip (get_text single_column_page) = [120]"
    by (simp add: single_column_page_def strip_def isspace_def)
  then show ?thesis
    by (simp add: logical_pages_def single_column_page_classified)
qed

lemma logical_pages_two_column_page:
  "logical_pages n two_column_page = [(n, [97, 10, 98, 10, 99]), (n + 1, [100, 10, 101, 10, 102])]"
  by (simp add: logical_pages_def two_column_page_width two_column_page_classified
      left_column_sorted right_column_sorted left_column_joined right_column_joined)

lemma logical_pages_empty_page: "logical_pages n empty_page = [(n, [])]"
  by (simp add: logical_pages_def classify_columns_def extract_blocks_def empty_page_def strip_def)

lemma output_paths:
  "os_path_join (ascii ''out'') (splitext_root (basename (ascii ''in/a.pdf'')) @ ascii ''.md'')
     = ascii ''out/a.md''"
  "os_path_join (ascii ''out'') (splitext_root (basename (ascii ''in/b.pdf'')) @ ascii ''.md'')
     = ascii ''out/b.md''"
  by (simp_all add: os_path_join_def splitext_root_def basename_def rfind_def ascii_def)

lemma document_pages_example:
  "document_pages 1 [single_column_page, two_column_page, empty_page]
     = [(1, [120]), (2, [97, 10, 98, 10, 99]), (3, [100, 10, 101, 10, 102]), (4, [])]"
  by (simp add: logical_pages_single_column_page logical_pages_two_column_page
      logical_pages_empty_page)

lemma page_bodies_example:
  "page_bodies single_column_page = [[120]]"
  "page_bodies two_column_page = [[97, 10, 98, 10, 99], [100, 10, 101, 10, 102]]"
  "page_bodies empty_page = [[]]"
proof -
  have "strip (get_text single_column_page) = [120]"
    by (simp add: single_column_page_def strip_def isspace_def)
  then show "page_bodies single_column_page = [[120]]"
    by (simp add: page_bodies_def single_column_page_classified)
  show "page_bodies two_column_page = [[97, 10, 98, 10, 99], [100, 10, 101, 10, 102]]"
    by (simp add: page_bodies_def two_column_page_width two_column_page_classified
        left_column_sorted right_column_sorted left_column_joined right_column_joined)
  show "page_bodies empty_page = [[]]"
    by (simp add: page_bodies_def classify_columns_def extract_blocks_def empty_page_def strip_def)
qed

lemma good_env_init:
  "converter_init good_env (ascii ''in/a.pdf'') (ascii ''out'') = Inr fresh_converter"
  by (simp add: converter_init_def good_env_def fresh_converter_def)



lemma b_pdf_converted:
  "convert_one broken_first_env (ascii ''in/b.pdf'') (ascii ''out'') fs =
     (Inr (), fs(ascii ''out/b.md'' \<mapsto>
        [35, 35, 32, 12506, 12540, 12472, 32, 49, 10, 10, 120, 10, 10]))"
proof -
  let ?c = "\<lparr>pdf_file_path = ascii ''in/b.pdf'', md_folder_path = ascii ''out'',
             doc = map Page [single_column_page], md_text = [], page_number = 1\<rparr>"
  have i: "converter_init broken_first_env (ascii ''in/b.pdf'') (ascii ''out'') = Inr ?c"
    by (simp add: converter_init_def broken_first_env_def)
  have w: "open_w broken_first_env p = Written" for p
    by (simp add: broken_first_env_def)
  have "process broken_first_env ?c fs =
     (Inr (), fs(ascii ''out/b.md'' \<mapsto>
        [35, 35, 32, 12506, 12540, 12472, 32, 49, 10, 10, 120, 10, 10]))"
    unfolding process_def
    by (simp add: process_page_logical logical_pages_single_column_page page_block_def
        str_nat_digits output_paths w)
  with i show ?thesis by (simp add: convert_one_def)
qed

lemma a_pdf_fails:
  "convert_one broken_first_env (ascii ''in/a.pdf'') (ascii ''out'') fs = (Inl OpenFailed, fs)"
proof -
  have "ascii ''in/a.pdf'' \<noteq> ascii ''in/b.pdf''" by (simp add: ascii_def)
  then show ?thesis
    by (simp add: convert_one_def converter_init_def broken_first_env_def)
qed

lemma broken_first_glob:
  "glob_glob broken_first_env p = [ascii ''in/a.pdf'', ascii ''in/b.pdf'']"
  by (simp add: broken_first_env_def)

section \<open>The claims about \<open>process\<close> and \<open>process_all\<close>\<close>

text \<open>
  Claim C5. A page is handled as a two-column page (two page blocks, the left and the right
  column, and the counter advanced by 2) if and only if the left group and the right group
  each have at least 2 blocks; when either group has fewer than 2 blocks the page is
  handled as a single-column page (one page block with the whole-page text, the counter
  advanced by 1).
\<close>

theorem two_column_iff:
  assumes "classify_columns (extract_blocks pg) (rect_width pg) = (l, r)"
  shows "(page_number (process_page pg c) = page_number c + 2 \<longleftrightarrow> 2 \<le> length l \<and> 2 \<le> length r)
       \<and> (page_number (process_page pg c) = page_number c + 1 \<longleftrightarrow> length l < 2 \<or> length r < 2)
       \<and> (2 \<le> length l \<and> 2 \<le> length r \<longrightarrow>
            md_text (process_page pg c) =
              md_text c
              @ page_block (page_number c) (join_block_texts (sort_blocks_reading_order l))
              @ page_block (page_number c + 1) (join_block_texts (sort_blocks_reading_order r)))
       \<and> (length l < 2 \<or> length r < 2 \<longrightarrow>
            md_text (process_page pg c) =
              md_text c @ page_block (page_number c) (strip (get_text pg)))"
proof (cases "2 \<le> length l \<and> 2 \<le> length r")
  case True
  then have "process_page pg c =
     c\<lparr>md_text := md_text c
          @ page_block (page_number c) (join_block_texts (sort_blocks_reading_order l))
          @ page_block (page_number c + 1) (join_block_texts (sort_blocks_reading_order r)),
       page_number := page_number c + 2\<rparr>"
    using process_page_two[OF assms] by simp
  with True show ?thesis by auto
next
  case False
  then have f: "length l < 2 \<or> length r < 2" by auto
  from process_page_single[OF assms f, of c] f show ?thesis by auto
qed

theorem two_column_iff_witness:
  "page_number (process_page two_column_page fresh_converter) = 3
   \<and> page_number (process_page single_column_page fresh_converter) = 2"
proof -
  have n: "page_number fresh_converter = 1" by (simp add: fresh_converter_def)
  have t: "classify_columns (extract_blocks two_column_page) (rect_width two_column_page) =
     ([frag 5 50 105 (ascii ''c''), frag 60 10 160 (ascii '' b ''), frag 5 10 55 (ascii ''a'')],
      [frag 305 50 405 (ascii ''f''), frag 360 10 460 (ascii ''e''), frag 305 10 355 (ascii ''d'')])"
    by (simp add: two_column_page_width two_column_page_classified)
  from two_column_iff[OF t, of fresh_converter]
    two_column_iff[OF single_column_page_classified, of fresh_converter] n
  show ?thesis by simp
qed

text \<open>
  Claim C7. The page counter of a new converter is 1. Over a whole document whose logical
  pages have the bodies \<open>bodies\<close>, the text built is the sequence of the page blocks of
  these bodies under the numbers 1, 2, 3, ... up to the number of bodies, each number written
  in decimal in the header of its block, in increasing order and without a gap, and the
  counter ends one above the last number. A two-column page appends the block numbered
  \<open>N\<close> with the left column and then the block numbered \<open>N + 1\<close> with the right column, and
  advances the counter by 2; any other page appends the block numbered \<open>N\<close> and advances
  the counter by 1. The decimal string of a number denotes that number, so the numbers can be
  read back from the text.
\<close>

theorem logical_page_numbering:
  assumes "converter_init ev pdf out = Inr c"
    and "doc c = map Page pgs"
    and "bodies = concat (map page_bodies pgs)"
  shows "page_number c = 1
       \<and> process_pages (doc c) c =
           Inr (c\<lparr>md_text :=
                    concat (map (\<lambda>(n, body).
                              [35, 35, 32, 12506, 12540, 12472, 32] @ str_nat n @ [10, 10]
                              @ body @ [10, 10])
                            (zip [1..<1 + length bodies] bodies)),
                  page_number := 1 + length bodies\<rparr>)
       \<and> (\<forall>n. decimal_value (str_nat n) = n \<and> str_nat n \<noteq> []
              \<and> (\<forall>d \<in> set (str_nat n). 48 \<le> d \<and> d \<le> 57))
       \<and> (\<forall>pg s l r. classify_columns (extract_blocks pg) (rect_width pg) = (l, r) \<longrightarrow>
             (2 \<le> length l \<and> 2 \<le> length r \<longrightarrow>
                process_page pg s =
                  s\<lparr>md_text := md_text s
                       @ [35, 35, 32, 12506, 12540, 12472, 32] @ str_nat (page_number s) @ [10, 10]
                       @ join_block_texts (sort_blocks_reading_order l) @ [10, 10]
                       @ [35, 35, 32, 12506, 12540, 12472, 32] @ str_nat (page_number s + 1) @ [10, 10]
                       @ join_block_texts (sort_blocks_reading_order r) @ [10, 10],
                    page_number := page_number s + 2\<rparr>
                \<and> page_bodies pg = [join_block_texts (sort_blocks_reading_order l),
                                     join_block_texts (sort_blocks_reading_order r)])
           \<and> (length l < 2 \<or> length r < 2 \<longrightarrow>
                process_page pg s =
                  s\<lparr>md_text := md_text s
                       @ [35, 35, 32, 12506, 12540, 12472, 32] @ str_nat (page_number s) @ [10, 10]
                       @ strip (get_text pg) @ [10, 10],
                    page_number := page_number s + 1\<rparr>
                \<and> page_bodies pg = [strip (get_text pg)]))"
proof -
  from assms(1) have c: "md_text c = []" "page_number c = 1"
    by (auto simp: converter_init_def split: option.splits)
  have p: "process_pages (doc c) c =
           Inr (c\<lparr>md_text :=
                    concat (map (\<lambda>(n, body).
                              [35, 35, 32, 12506, 12540, 12472, 32] @ str_nat n @ [10, 10]
                              @ body @ [10, 10])
                            (zip [1..<1 + length bodies] bodies)),
                  page_number := 1 + length bodies\<rparr>)"
    unfolding assms(2) process_pages_logical c document_pages_length page_block_unfolded assms(3)
    unfolding document_pages_zip by simp
  have v: "decimal_value (str_nat n) = n" for n
  proof (induction n rule: str_nat.induct)
    case (1 n)
    show ?case
    proof (cases "n < 10")
      case True
      then show ?thesis by (simp add: str_nat.simps[of n] decimal_value_def)
    next
      case False
      with 1 have "decimal_value (str_nat (n div 10)) = n div 10" by simp
      with False show ?thesis
        by (simp add: str_nat.simps[of n] decimal_value_def)
    qed
  qed
  have g: "str_nat n \<noteq> [] \<and> (\<forall>d \<in> set (str_nat n). 48 \<le> d \<and> d \<le> 57)" for n
  proof (induction n rule: str_nat.induct)
    case (1 n)
    show ?case
    proof (cases "n < 10")
      case True
      then show ?thesis by (simp add: str_nat.simps[of n])
    next
      case False
      with 1 have "\<forall>d \<in> set (str_nat (n div 10)). 48 \<le> d \<and> d \<le> 57" by simp
      moreover have "n mod 10 \<le> 9" by simp
      ultimately show ?thesis using False
        by (auto simp add: str_nat.simps[of n])
    qed
  qed
  have d: "\<forall>n. decimal_value (str_nat n) = n \<and> str_nat n \<noteq> []
              \<and> (\<forall>d \<in> set (str_nat n). 48 \<le> d \<and> d \<le> 57)"
    using v g by blast
  have two: "process_page pg s =
                  s\<lparr>md_text := md_text s
                       @ [35, 35, 32, 12506, 12540, 12472, 32] @ str_nat (page_number s) @ [10, 10]
                       @ join_block_texts (sort_blocks_reading_order l) @ [10, 10]
                       @ [35, 35, 32, 12506, 12540, 12472, 32] @ str_nat (page_number s + 1) @ [10, 10]
                       @ join_block_texts (sort_blocks_reading_order r) @ [10, 10],
                    page_number := page_number s + 2\<rparr>
                \<and> page_bodies pg = [join_block_texts (sort_blocks_reading_order l),
                                     join_block_texts (sort_blocks_reading_order r)]"
    if "classify_columns (extract_blocks pg) (rect_width pg) = (l, r)"
      and "2 \<le> length l \<and> 2 \<le> length r" for pg s l r
    using that process_page_two[OF that(1), of s]
    by (simp add: page_block_def page_bodies_def)
  have one: "process_page pg s =
                  s\<lparr>md_text := md_text s
                       @ [35, 35, 32, 12506, 12540, 12472, 32] @ str_nat (page_number s) @ [10, 10]
                       @ strip (get_text pg) @ [10, 10],
                    page_number := page_number s + 1\<rparr>
                \<and> page_bodies pg = [strip (get_text pg)]"
    if "classify_columns (extract_blocks pg) (rect_width pg) = (l, r)"
      and "length l < 2 \<or> length r < 2" for pg s l r
    using that process_page_single[OF that, of s]
    by (auto simp add: page_block_def page_bodies_def)
  from c(2) p d two one show ?thesis by blast
qed

theorem logical_page_numbering_witness:
  "page_number fresh_converter = 1
   \<and> process_pages (doc fresh_converter) fresh_converter =
       Inr (fresh_converter
             \<lparr>md_text :=
                [35, 35, 32, 12506, 12540, 12472, 32, 49, 10, 10, 120, 10, 10,
                 35, 35, 32, 12506, 12540, 12472, 32, 50, 10, 10, 97, 10, 98, 10, 99, 10, 10,
                 35, 35, 32, 12506, 12540, 12472, 32, 51, 10, 10, 100, 10, 101, 10, 102, 10, 10,
                 35, 35, 32, 12506, 12540, 12472, 32, 52, 10, 10, 10, 10],
              page_number := 5\<rparr>)
   \<and> decimal_value (str_nat 4) = 4
   \<and> process_page two_column_page fresh_converter =
       fresh_converter
         \<lparr>md_text :=
            [35, 35, 32, 12506, 12540, 12472, 32, 49, 10, 10, 97, 10, 98, 10, 99, 10, 10,
             35, 35, 32, 12506, 12540, 12472, 32, 50, 10, 10, 100, 10, 101, 10, 102, 10, 10],
          page_number := 3\<rparr>"
proof -
  have d: "doc fresh_converter = map Page [single_column_page, two_column_page, empty_page]"
    by (simp add: fresh_converter_def)
  have b: "[[120], [97, 10, 98, 10, 99], [100, 10, 101, 10, 102], []]
      = concat (map page_bodies [single_column_page, two_column_page, empty_page])"
    by (simp add: page_bodies_example)
  have t: "classify_columns (extract_blocks two_column_page) (rect_width two_column_page) =
     ([frag 5 50 105 (ascii ''c''), frag 60 10 160 (ascii '' b ''), frag 5 10 55 (ascii ''a'')],
      [frag 305 50 405 (ascii ''f''), frag 360 10 460 (ascii ''e''), frag 305 10 355 (ascii ''d'')])"
    by (simp add: two_column_page_width two_column_page_classified)
  have n: "page_number fresh_converter = 1" "md_text fresh_converter = []"
    by (simp_all add: fresh_converter_def)
  note m = logical_page_numbering[OF good_env_init d b]
  note m1 = m[THEN conjunct1]
  note m2 = m[THEN conjunct2, THEN conjunct1]
  note m3 = m[THEN conjunct2, THEN conjunct2, THEN conjunct1]
  note m4 = m[THEN conjunct2, THEN conjunct2, THEN conjunct2]
  have w2: "process_pages (doc fresh_converter) fresh_converter =
       Inr (fresh_converter
             \<lparr>md_text :=
                [35, 35, 32, 12506, 12540, 12472, 32, 49, 10, 10, 120, 10, 10,
                 35, 35, 32, 12506, 12540, 12472, 32, 50, 10, 10, 97, 10, 98, 10, 99, 10, 10,
                 35, 35, 32, 12506, 12540, 12472, 32, 51, 10, 10, 100, 10, 101, 10, 102, 10, 10,
                 35, 35, 32, 12506, 12540, 12472, 32, 52, 10, 10, 10, 10],
              page_number := 5\<rparr>)"
    unfolding m2 by (simp add: upt_conv_Cons str_nat.simps)
  from m3 have w3: "decimal_value (str_nat 4) = 4" by blast
  from m4 t have "process_page two_column_page fresh_converter =
       fresh_converter
         \<lparr>md_text := md_text fresh_converter
             @ [35, 35, 32, 12506, 12540, 12472, 32] @ str_nat (page_number fresh_converter) @ [10, 10]
             @ join_block_texts (sort_blocks_reading_order
                 [frag 5 50 105 (ascii ''c''), frag 60 10 160 (ascii '' b ''), frag 5 10 55 (ascii ''a'')])
             @ [10, 10]
             @ [35, 35, 32, 12506, 12540, 12472, 32] @ str_nat (page_number fresh_converter + 1) @ [10, 10]
             @ join_block_texts (sort_blocks_reading_order
                 [frag 305 50 405 (ascii ''f''), frag 360 10 460 (ascii ''e''), frag 305 10 355 (ascii ''d'')])
             @ [10, 10],
          page_number := page_number fresh_converter + 2\<rparr>"
    by simp
  then have w4: "process_page two_column_page fresh_converter =
       fresh_converter
         \<lparr>md_text :=
            [35, 35, 32, 12506, 12540, 12472, 32, 49, 10, 10, 97, 10, 98, 10, 99, 10, 10,
             35, 35, 32, 12506, 12540, 12472, 32, 50, 10, 10, 100, 10, 101, 10, 102, 10, 10],
          page_number := 3\<rparr>"
    unfolding left_column_sorted right_column_sorted left_column_joined right_column_joined n
    by (simp add: str_nat.simps)
  from m1 w2 w3 w4 show ?thesis by (intro conjI)
qed

text \<open>
  Claim C8. For every page that is not two-column, also a page without any text block,
  \<open>process\<close> appends exactly one page block, whose body is the trimmed whole-page text of
  the decoder (\<open>page.get_text().strip()\<close>, not the filtered blocks), and advances the
  counter by 1; the body is empty when the whole-page text is empty.
\<close>

theorem single_column_page_emits_full_text:
  assumes "classify_columns (extract_blocks pg) (rect_width pg) = (l, r)"
  shows "(length l < 2 \<or> length r < 2 \<longrightarrow>
            process_page pg c =
              c\<lparr>md_text := md_text c @ page_block (page_number c) (strip (get_text pg)),
                page_number := page_number c + 1\<rparr>
            \<and> logical_pages (page_number c) pg = [(page_number c, strip (get_text pg))])
       \<and> (extract_blocks pg = [] \<longrightarrow>
            process_page pg c =
              c\<lparr>md_text := md_text c @ page_block (page_number c) (strip (get_text pg)),
                page_number := page_number c + 1\<rparr>)
       \<and> (get_text pg = [] \<longrightarrow> strip (get_text pg) = [])"
proof -
  have a: "length l < 2 \<or> length r < 2 \<Longrightarrow>
      logical_pages (page_number c) pg = [(page_number c, strip (get_text pg))]"
    using assms by (auto simp: logical_pages_def)
  have b: "extract_blocks pg = [] \<Longrightarrow> length l < 2"
    using assms by (auto simp: classify_columns_def)
  show ?thesis
    using a b process_page_single[OF assms, of c] by (auto simp: strip_Nil)
qed

theorem single_column_page_emits_full_text_witness:
  "process_page single_column_page fresh_converter =
     fresh_converter\<lparr>md_text := [35, 35, 32, 12506, 12540, 12472, 32, 49, 10, 10, 120, 10, 10],
                     page_number := 2\<rparr>
   \<and> process_page empty_page fresh_converter =
     fresh_converter\<lparr>md_text := [35, 35, 32, 12506, 12540, 12472, 32, 49, 10, 10, 10, 10],
                     page_number := 2\<rparr>"
proof -
  have n: "page_number fresh_converter = 1" "md_text fresh_converter = []"
    by (simp_all add: fresh_converter_def)
  have e: "extract_blocks empty_page = []"
    by (simp add: extract_blocks_def empty_page_def)
  have ec: "classify_columns (extract_blocks empty_page) (rect_width empty_page) = ([], [])"
    by (simp add: e classify_columns_def)
  have s: "strip (get_text single_column_page) = [120]" "strip (get_text empty_page) = []"
    by (simp_all add: single_column_page_def empty_page_def strip_def isspace_def)
  from single_column_page_emits_full_text[OF single_column_page_classified, of fresh_converter]
    single_column_page_emits_full_text[OF ec, of fresh_converter] e n s
  show ?thesis by (simp add: page_block_def str_nat_digits)
qed

text \<open>
  The block of a logical page is not \<open>"## Page {number}\n\n{body}\n\n"\<close>: the document
  \<open>in/b.pdf\<close>, whose only logical page has the number 1 and the body \<open>x\<close>, is written
  with the katakana header.
\<close>

theorem page_header_counterexample:
  "logical_pages 1 single_column_page = [(1, [120])]
   \<and> snd (convert_one broken_first_env (ascii ''in/b.pdf'') (ascii ''out'') Map.empty)
        (ascii ''out/b.md'')
      = Some [35, 35, 32, 12506, 12540, 12472, 32, 49, 10, 10, 120, 10, 10]
   \<and> snd (convert_one broken_first_env (ascii ''in/b.pdf'') (ascii ''out'') Map.empty)
        (ascii ''out/b.md'')
      \<noteq> Some (ascii ''## Page 1'' @ [10, 10] @ [120] @ [10, 10])"
  by (simp add: b_pdf_converted logical_pages_single_column_page) (simp add: ascii_def)

text \<open>
  Claim C2, as the code has it. For a document that opens, whose pages can all be read and
  whose output can be written, \<open>process\<close> writes one file, whose path is
  \<open>os.path.join\<close> of the output folder and the base name of the source (its last path
  component without its extension) followed by \<open>.md\<close>. The file holds, for every logical
  page of the document in order, the block made of \<open>"## "\<close>, the three code points
  U+30DA U+30FC U+30B8 (the katakana word for page, not the word \<open>Page\<close>), a space, the
  decimal page number, two newlines, the body and two newlines. No other file changes.
\<close>

theorem process_writes_document:
  assumes "converter_init ev pdf out = Inr c"
    and "doc c = map Page pgs"
    and "open_w ev (os_path_join out (splitext_root (basename pdf) @ ascii ''.md'')) = Written"
  shows "process ev c fs =
     (Inr (),
      fs(os_path_join out (splitext_root (basename pdf) @ ascii ''.md'') \<mapsto>
         concat (map (\<lambda>(n, body).
                   [35, 35, 32, 12506, 12540, 12472, 32] @ str_nat n @ [10, 10] @ body @ [10, 10])
                 (document_pages 1 pgs))))"
proof -
  from assms(1) have c: "pdf_file_path c = pdf" "md_folder_path c = out" "md_text c = []"
    "page_number c = 1"
    by (auto simp: converter_init_def split: option.splits)
  have pb: "(\<lambda>(n, body). page_block n body) =
     (\<lambda>(n, body). [35, 35, 32, 12506, 12540, 12472, 32] @ str_nat n @ [10, 10] @ body @ [10, 10])"
    by (simp add: page_block_def fun_eq_iff)
  show ?thesis
    using assms(3) by (simp add: process_def assms(2) process_pages_logical c Let_def pb)
qed

theorem process_writes_document_witness:
  "process good_env fresh_converter Map.empty =
     (Inr (),
      [ascii ''out/a.md'' \<mapsto>
        [35, 35, 32, 12506, 12540, 12472, 32, 49, 10, 10, 120, 10, 10,
         35, 35, 32, 12506, 12540, 12472, 32, 50, 10, 10, 97, 10, 98, 10, 99, 10, 10,
         35, 35, 32, 12506, 12540, 12472, 32, 51, 10, 10, 100, 10, 101, 10, 102, 10, 10,
         35, 35, 32, 12506, 12540, 12472, 32, 52, 10, 10, 10, 10]])"
proof -
  have d: "doc fresh_converter = map Page [single_column_page, two_column_page, empty_page]"
    by (simp add: fresh_converter_def)
  have w: "open_w good_env (os_path_join (ascii ''out'')
             (splitext_root (basename (ascii ''in/a.pdf'')) @ ascii ''.md'')) = Written"
    by (simp add: good_env_def)
  from process_writes_document[OF good_env_init d w, of Map.empty]
  show ?thesis
    unfolding output_paths document_pages_example
    by (simp add: str_nat_digits)
qed




text \<open>
  The batch is not independent. In a folder with \<open>in/a.pdf\<close>, which cannot be opened,
  and \<open>in/b.pdf\<close>, which converts well on its own, \<open>process_all\<close> raises the error of
  the first document and never writes \<open>out/b.md\<close>.
\<close>

theorem batch_stops_counterexample:
  "fst (process_all broken_first_env batch_folder Map.empty) = Inl OpenFailed
   \<and> snd (process_all broken_first_env batch_folder Map.empty) (ascii ''out/b.md'') = None
   \<and> snd (process_all_loop broken_first_env (ascii ''out'') [ascii ''in/b.pdf''] Map.empty)
        (ascii ''out/b.md'')
      = Some [35, 35, 32, 12506, 12540, 12472, 32, 49, 10, 10, 120, 10, 10]"
  by (simp add: process_all_def broken_first_glob batch_folder_def a_pdf_fails b_pdf_converted)

text \<open>
  Claim C1, as the code has it. \<open>process_all\<close> has no handler around the two calls of its
  loop: when the documents before \<open>pdf\<close> have been converted and converting \<open>pdf\<close>
  raises (its open, one of its pages or its write fails), \<open>process_all\<close> raises that same
  error and ends there, with the files as the failing document left them. The documents
  after it in the folder are not processed: the result does not depend on them.
\<close>

theorem process_all_stops_at_first_failure:
  assumes "glob_glob ev (os_path_join (input_folder_path fc) (ascii ''*.pdf'')) = done @ pdf # rest"
    and "process_all_loop ev (output_folder_path fc) done fs = (Inr (), fs1)"
    and "convert_one ev pdf (output_folder_path fc) fs1 = (Inl e, fs2)"
  shows "process_all ev fc fs = (Inl e, fs2)"
  using assms by (simp add: process_all_def process_all_loop_fails)

theorem process_all_stops_at_first_failure_witness:
  "convert_one broken_first_env (ascii ''in/a.pdf'') (ascii ''out'') Map.empty
     = (Inl OpenFailed, Map.empty)
   \<and> process_all broken_first_env batch_folder Map.empty = (Inl OpenFailed, Map.empty)"
proof -
  have g: "glob_glob broken_first_env (os_path_join (input_folder_path batch_folder) (ascii ''*.pdf''))
        = [] @ ascii ''in/a.pdf'' # [ascii ''in/b.pdf'']"
    by (simp add: broken_first_glob)
  have d: "process_all_loop broken_first_env (output_folder_path batch_folder) [] Map.empty
        = (Inr (), Map.empty)"
    by simp
  have f: "convert_one broken_first_env (ascii ''in/a.pdf'') (output_folder_path batch_folder) Map.empty
        = (Inl OpenFailed, Map.empty)"
    by (simp add: batch_folder_def a_pdf_fails)
  from process_all_stops_at_first_failure[OF g d f] a_pdf_fails[of Map.empty]
  show ?thesis by simp
qed

end
